theory Spec2Isabelle
  imports Main "HOL-Library.Sublist"
begin

section \<open>The guest agent client\<close>

text \<open>
  A shallow embedding of the class \<open>QemuAgent\<close> and of the exception classes of
  \<open>guest_agent.py\<close>. Python names that start with an underscore lose it
  (\<open>_read_objects\<close> is \<open>read_objects\<close>), since an Isabelle name starts with a letter.
  The instance, its socket, its lock and the clock are one record that every method
  takes and returns; an exception is the \<open>Inl\<close> of a sum.
\<close>

subsection \<open>Decoded values\<close>

text \<open>
  What \<open>json.loads\<close> produces: \<open>None\<close>, a boolean, a number (integers only here), a
  string, a list, or a dict. A dict is an association list read by its first matching
  key. A decoded string is a \<open>unicode\<close> object of Python 2; a character code of
  128 or more stands for a character outside ASCII.
\<close>

datatype json =
    JNull
  | JBool bool
  | JNum int
  | JStr string
  | JList "json list"
  | JDict "(string \<times> json) list"

text \<open>Python's truth value of an object, as \<open>if x:\<close> and \<open>not x\<close> read it.\<close>

fun truthy :: "json \<Rightarrow> bool" where
  "truthy JNull = False"
| "truthy (JBool b) = b"
| "truthy (JNum n) = (n \<noteq> 0)"
| "truthy (JStr s) = (s \<noteq> [])"
| "truthy (JList xs) = (xs \<noteq> [])"
| "truthy (JDict kv) = (kv \<noteq> [])"

subsection \<open>Exceptions\<close>

text \<open>
  The exceptions a call can end with. Beside the module's own classes these are the
  built-in ones that the module's code raises on the way: \<open>TypeError\<close>,
  \<open>AttributeError\<close>, \<open>IndexError\<close>, \<open>KeyError\<close> and \<open>UnicodeEncodeError\<close>.
\<close>

datatype error =
    TypeError
  | AttributeError
  | IndexError
  | KeyError
  | UnicodeEncodeError
  | VAgentLockError string
  | VAgentSocketError string
  | VAgentProtocolError string
  | VAgentCmdError string "json option" json

text \<open>
  \<^verbatim>\<open>
  class VAgentError(MonitorError):
      def __init__(self):
          MonitorError.__init__(self)
  \<close>
  \<open>VAgentError.__init__\<close> has the single parameter \<open>self\<close>: called with further
  arguments it raises \<open>TypeError\<close> before its body runs. The list holds the further
  arguments of the call.
\<close>

definition VAgentError_init :: "json list \<Rightarrow> error + unit" where
  "VAgentError_init extra = (if extra = [] then Inr () else Inl TypeError)"

text \<open>
  What \<open>raise C(...)\<close> propagates for each subclass \<open>C\<close>: the instance when its
  construction succeeds, and the exception of the construction otherwise.
  \<open>VAgentLockError\<close> and \<open>VAgentProtocolError\<close> have no \<open>__init__\<close> of their own, so
  \<open>C(msg)\<close> runs \<open>VAgentError.__init__(self, msg)\<close>.
  \<^verbatim>\<open>
  class VAgentSocketError(VAgentError):
      def __init__(self, msg, e):
          VAgentError.__init__(self, msg, e)
          ...
  class VAgentCmdError(VAgentError):
      def __init__(self, cmd, args, data):
          VAgentError.__init__(self, cmd, args, data)
          self.cmd = cmd
          self.args = args
          self.data = data
  \<close>
\<close>

definition new_VAgentLockError :: "string \<Rightarrow> error" where
  "new_VAgentLockError msg =
     (case VAgentError_init [JStr msg] of Inl e \<Rightarrow> e | Inr _ \<Rightarrow> VAgentLockError msg)"

definition new_VAgentProtocolError :: "string \<Rightarrow> error" where
  "new_VAgentProtocolError msg =
     (case VAgentError_init [JStr msg] of Inl e \<Rightarrow> e | Inr _ \<Rightarrow> VAgentProtocolError msg)"

definition new_VAgentSocketError :: "string \<Rightarrow> error" where
  "new_VAgentSocketError msg =
     (case VAgentError_init [JStr msg, JNull] of Inl e \<Rightarrow> e | Inr _ \<Rightarrow> VAgentSocketError msg)"

definition new_VAgentCmdError :: "string \<Rightarrow> json option \<Rightarrow> json \<Rightarrow> error" where
  "new_VAgentCmdError cmd args data =
     (case VAgentError_init [JStr cmd, (case args of None \<Rightarrow> JNull | Some a \<Rightarrow> a), data] of
        Inl e \<Rightarrow> e
      | Inr _ \<Rightarrow> VAgentCmdError cmd args data)"

subsection \<open>The instance and its transport\<close>

text \<open>
  What the log receives: a line written by \<open>_log_lines\<close>, the message of
  \<open>_log_command\<close>, the heading that \<open>_log_response\<close> writes for a response
  together with as much of the response as it goes on to write (the layout is not
  modelled), and a warning.
\<close>

datatype log_entry =
    LogLines string
  | LogCommand string string
  | LogResponse string json
  | LogWarn string

text \<open>
  The state of one \<open>QemuAgent\<close> and of what it talks to. \<open>clock\<close> is \<open>time.time()\<close>
  in whole ticks. \<open>inbox\<close> holds the data on its way from the guest, in order, each
  piece with the time at which it can be read. \<open>outbox\<close> is what \<open>sendall\<close> has
  written. \<open>send_faults\<close> says for each coming \<open>sendall\<close> whether it raises
  \<open>socket.error\<close> (none left: it succeeds). \<open>locked\<close> is the state of \<open>self._lock\<close>.
\<close>

record agent =
  clock :: int
  inbox :: "(int \<times> string) list"
  outbox :: "string list"
  send_faults :: "bool list"
  locked :: bool
  supported_cmds :: "json list"
  debug_log :: bool
  log :: "log_entry list"

definition READ_OBJECTS_TIMEOUT :: int where "READ_OBJECTS_TIMEOUT = 5"
definition CMD_TIMEOUT :: int where "CMD_TIMEOUT = 20"
definition RESPONSE_TIMEOUT :: int where "RESPONSE_TIMEOUT = 20"

text \<open>
  Modelled from the spec: the class \<open>Monitor\<close> of \<open>kvm_monitor\<close>, the base class, is
  not among the sources. The spec gives its contract: a readiness test "is data
  available within N seconds" that does not block on its own, "read all currently
  buffered bytes", "send all bytes" (which fails with a transport error on an I/O
  failure), and "acquire/release exclusive lock". The default of the readiness test is
  an immediate poll.
\<close>

definition DATA_AVAILABLE_TIMEOUT :: int where "DATA_AVAILABLE_TIMEOUT = 0"

text \<open>
  Modelled from the spec: \<open>Monitor._data_available(timeout)\<close>. A negative time is
  read as zero. The test is true as soon as the first piece of the inbox can be read,
  and it waits for that no longer than \<open>timeout\<close>; the time it waited has passed.
\<close>

definition data_available :: "int \<Rightarrow> agent \<Rightarrow> bool \<times> agent" where
  "data_available timeout w =
     (let t = max 0 timeout in
      case inbox w of
        [] \<Rightarrow> (False, w\<lparr>clock := clock w + t\<rparr>)
      | (a, d) # rest \<Rightarrow>
          if a \<le> clock w + t then (True, w\<lparr>clock := max (clock w) a\<rparr>)
          else (False, w\<lparr>clock := clock w + t\<rparr>))"

text \<open>
  Modelled from the spec: \<open>Monitor._recvall()\<close>, "returns whatever is currently
  queued": the pieces that have arrived by now, joined, which leave the inbox.
\<close>

definition recvall :: "agent \<Rightarrow> string \<times> agent" where
  "recvall w =
     (concat (map snd (takeWhile (\<lambda>p. fst p \<le> clock w) (inbox w))),
      w\<lparr>inbox := dropWhile (\<lambda>p. fst p \<le> clock w) (inbox w)\<rparr>)"

text \<open>
  Modelled from the spec: \<open>Monitor._acquire_lock()\<close> and \<open>self._lock.release()\<close>. The
  lock is taken when it is free; a lock that is held (by another caller) is not
  acquired.
\<close>

definition acquire_lock :: "agent \<Rightarrow> bool \<times> agent" where
  "acquire_lock w = (if locked w then (False, w) else (True, w\<lparr>locked := True\<rparr>))"

definition lock_release :: "agent \<Rightarrow> agent" where
  "lock_release w = w\<lparr>locked := False\<rparr>"

text \<open>Modelled from the spec: \<open>Monitor._log_lines\<close>, the logging collaborator.\<close>

definition log_lines :: "string \<Rightarrow> agent \<Rightarrow> agent" where
  "log_lines s w = w\<lparr>log := log w @ [LogLines s]\<rparr>"

text \<open>
  Modelled from the spec: \<open>self._socket.sendall(data)\<close>, "fails with a transport error
  on I/O failure". \<open>Inl ()\<close> is \<open>socket.error\<close>.
\<close>

definition sendall :: "string \<Rightarrow> agent \<Rightarrow> (unit + unit) \<times> agent" where
  "sendall data w =
     (case send_faults w of
        [] \<Rightarrow> (Inr (), w\<lparr>outbox := outbox w @ [data]\<rparr>)
      | f # fs \<Rightarrow>
          if f then (Inl (), w\<lparr>send_faults := fs\<rparr>)
          else (Inr (), w\<lparr>outbox := outbox w @ [data], send_faults := fs\<rparr>))"

subsection \<open>The decoder: \<open>_read_objects\<close>\<close>

text \<open>
  \<open>str.splitlines()\<close> of Python 2: a line ends at \<open>\n\<close>, at \<open>\r\<close> or at \<open>\r\n\<close>; the
  ends are dropped, and text after the last end is a line when it is not empty. The
  first argument is the line read so far.
\<close>

fun splitlines_from :: "string \<Rightarrow> string \<Rightarrow> string list" where
  "splitlines_from cur [] = (if cur = [] then [] else [cur])"
| "splitlines_from cur (c # cs) =
     (if c = CHR 0x0D \<and> cs \<noteq> [] \<and> hd cs = CHR 0x0A then cur # splitlines_from [] (tl cs)
      else if c = CHR 0x0A \<or> c = CHR 0x0D then cur # splitlines_from [] cs
      else splitlines_from (cur @ [c]) cs)"

definition splitlines :: "string \<Rightarrow> string list" where
  "splitlines s = splitlines_from [] s"

text \<open>
  \<open>json.loads\<close> is a parameter \<open>loads\<close> of every function that decodes: \<open>None\<close> is
  any exception it raises.
  \<^verbatim>\<open>
            for line in s.splitlines():
                if line:
                    try:
                        json.loads(line)
                    except Exception:
                        break
            else:
                break
  \<close>
  The \<open>else\<close> of the \<open>for\<close> runs when no line broke out of it: every line that is
  not empty decodes.
\<close>

definition all_lines_ok :: "(string \<Rightarrow> json option) \<Rightarrow> string \<Rightarrow> bool" where
  "all_lines_ok loads s = list_all (\<lambda>line. line = [] \<or> loads line \<noteq> None) (splitlines s)"

text \<open>
  \<^verbatim>\<open>
        while self._data_available(end_time - time.time()):
            s += self._recvall()
            ... (all lines are OK: break)
  \<close>
  The loop returns the text it has gathered.
\<close>

function read_loop :: "(string \<Rightarrow> json option) \<Rightarrow> int \<Rightarrow> string \<Rightarrow> agent \<Rightarrow> string \<times> agent" where
  "read_loop loads end_time s w =
     (case data_available (end_time - clock w) w of
        (False, w1) \<Rightarrow> (s, w1)
      | (True, w1) \<Rightarrow>
          (case recvall w1 of
             (d, w2) \<Rightarrow>
               if all_lines_ok loads (s @ d) then (s @ d, w2)
               else read_loop loads end_time (s @ d) w2))"
  by pat_completeness auto

lemma data_available_inbox: "inbox (snd (data_available t w)) = inbox w"
  by (simp add: data_available_def Let_def split: list.splits prod.splits)

lemma data_available_True:
  "data_available t w = (True, w1) \<Longrightarrow>
     inbox w1 = inbox w \<and> inbox w \<noteq> [] \<and> fst (hd (inbox w)) \<le> clock w1"
  by (auto simp: data_available_def Let_def split: list.splits prod.splits if_splits)

lemma recvall_length: "length (inbox (snd (recvall w))) \<le> length (inbox w)"
  by (simp add: recvall_def length_dropWhile_le)

lemma recvall_shorter:
  "inbox w \<noteq> [] \<Longrightarrow> fst (hd (inbox w)) \<le> clock w \<Longrightarrow>
     length (inbox (snd (recvall w))) < length (inbox w)"
  by (cases "inbox w") (auto simp: recvall_def intro: le_imp_less_Suc length_dropWhile_le)

termination read_loop
proof (relation "measure (\<lambda>(loads, end_time, s, w). length (inbox w))", goal_cases)
  case 1
  show ?case by simp
next
  case prems: (2 loads end_time s w b w1 d w2)
  from prems have a: "data_available (end_time - clock w) w = (True, w1)" by simp
  from prems have r: "w2 = snd (recvall w1)" by (metis snd_conv)
  from data_available_True [OF a] recvall_shorter [of w1] r
  show ?case by simp
qed


text \<open>
  \<^verbatim>\<open>
        objs = []
        for line in s.splitlines():
            try:
                objs += [json.loads(line)]
                self._log_lines(line)
            except Exception:
                pass
        return objs
  \<close>
\<close>

fun decode_lines :: "(string \<Rightarrow> json option) \<Rightarrow> string list \<Rightarrow> json list \<Rightarrow> agent \<Rightarrow> json list \<times> agent" where
  "decode_lines loads [] objs w = (objs, w)"
| "decode_lines loads (line # rest) objs w =
     (case loads line of
        Some obj \<Rightarrow> decode_lines loads rest (objs @ [obj]) (log_lines line w)
      | None \<Rightarrow> decode_lines loads rest objs w)"

text \<open>
  \<^verbatim>\<open>
    def _read_objects(self, timeout=READ_OBJECTS_TIMEOUT):
        if not self._data_available():
            return []
        s = ""
        end_time = time.time() + timeout
        while ...
  \<close>
\<close>

definition read_objects :: "(string \<Rightarrow> json option) \<Rightarrow> int \<Rightarrow> agent \<Rightarrow> json list \<times> agent" where
  "read_objects loads timeout w =
     (case data_available DATA_AVAILABLE_TIMEOUT w of
        (False, w0) \<Rightarrow> ([], w0)
      | (True, w0) \<Rightarrow>
          (case read_loop loads (clock w0 + timeout) [] w0 of
             (s, w1) \<Rightarrow> decode_lines loads (splitlines s) [] w1))"

subsection \<open>The reply correlator: \<open>_get_response\<close>\<close>

text \<open>\<open>"return" in obj\<close> for a dict \<open>obj\<close>.\<close>

definition has_key :: "(string \<times> json) list \<Rightarrow> string \<Rightarrow> bool" where
  "has_key kv k = (k \<in> set (map fst kv))"

text \<open>
  \<^verbatim>\<open>
            for obj in self._read_objects():
                if isinstance(obj, dict):
                    if "return" in obj or "error" in obj:
                        return obj
  \<close>
  The first object that the \<open>for\<close> returns, if there is one.
\<close>

fun find_reply :: "json list \<Rightarrow> json option" where
  "find_reply [] = None"
| "find_reply (JDict kv # objs) =
     (if has_key kv ''return'' \<or> has_key kv ''error'' then Some (JDict kv)
      else find_reply objs)"
| "find_reply (obj # objs) = find_reply objs"

declare read_loop.simps [simp del]

lemma decode_lines_inbox: "inbox (snd (decode_lines loads ls objs w)) = inbox w"
  by (induction ls arbitrary: objs w) (auto simp: log_lines_def split: option.splits)

lemma read_loop_length: "length (inbox (snd (read_loop loads e s w))) \<le> length (inbox w)"
proof (induction loads e s w rule: read_loop.induct)
  case (1 loads end_time s w)
  obtain b w1 where a: "data_available (end_time - clock w) w = (b, w1)"
    by (cases "data_available (end_time - clock w) w")
  have i: "inbox w1 = inbox w"
    using data_available_inbox [of "end_time - clock w" w] a by simp
  show ?case
  proof (cases b)
    case False
    with a i show ?thesis by (simp add: read_loop.simps [of loads end_time s w])
  next
    case True
    obtain d w2 where r: "recvall w1 = (d, w2)" by (cases "recvall w1")
    have l: "length (inbox w2) \<le> length (inbox w)"
      using recvall_length [of w1] r i by simp
    show ?thesis
    proof (cases "all_lines_ok loads (s @ d)")
      case ok: True
      with a True r l show ?thesis by (simp add: read_loop.simps [of loads end_time s w])
    next
      case notok: False
      from "1" [of b w1 d w2] a True r notok
      have "length (inbox (snd (read_loop loads end_time (s @ d) w2))) \<le> length (inbox w2)"
        by simp
      with a True r notok l show ?thesis by (simp add: read_loop.simps [of loads end_time s w])
    qed
  qed
qed

lemma read_loop_shorter:
  assumes "inbox w \<noteq> []" and "fst (hd (inbox w)) \<le> clock w"
  shows "length (inbox (snd (read_loop loads e s w))) < length (inbox w)"
proof -
  obtain a d rest where iw: "inbox w = (a, d) # rest"
    using assms(1) by (cases "inbox w") auto
  with assms(2) have le: "a \<le> clock w" by simp
  define w1 where "w1 = w\<lparr>clock := max (clock w) a\<rparr>"
  have da: "data_available (e - clock w) w = (True, w1)"
    using iw le by (simp add: data_available_def Let_def w1_def)
  obtain d' w2 where r: "recvall w1 = (d', w2)" by (cases "recvall w1")
  have "inbox w1 \<noteq> []" "fst (hd (inbox w1)) \<le> clock w1"
    using iw le by (simp_all add: w1_def)
  from recvall_shorter [OF this] r have l: "length (inbox w2) < length (inbox w)"
    by (simp add: w1_def)
  from read_loop_length [of loads e "s @ d'" w2] l
  have "length (inbox (snd (read_loop loads e (s @ d') w2))) < length (inbox w)" by simp
  with da r l show ?thesis by (simp add: read_loop.simps [of loads e s w])
qed

lemma read_objects_length: "length (inbox (snd (read_objects loads t w))) \<le> length (inbox w)"
proof -
  obtain b w0 where a: "data_available DATA_AVAILABLE_TIMEOUT w = (b, w0)"
    by (cases "data_available DATA_AVAILABLE_TIMEOUT w")
  have i: "inbox w0 = inbox w"
    using data_available_inbox [of DATA_AVAILABLE_TIMEOUT w] a by simp
  show ?thesis
    using a i read_loop_length [of loads "clock w0 + t" "[]" w0]
    by (cases b) (auto simp: read_objects_def decode_lines_inbox split: prod.splits)
qed

lemma read_objects_shorter:
  assumes "inbox w \<noteq> []" and "fst (hd (inbox w)) \<le> clock w"
  shows "length (inbox (snd (read_objects loads t w))) < length (inbox w)"
proof -
  obtain a d rest where iw: "inbox w = (a, d) # rest"
    using assms(1) by (cases "inbox w") auto
  with assms(2) have le: "a \<le> clock w" by simp
  have da: "data_available DATA_AVAILABLE_TIMEOUT w = (True, w)"
    using iw le by (simp add: data_available_def Let_def DATA_AVAILABLE_TIMEOUT_def max_def)
  show ?thesis
    using da read_loop_shorter [OF assms, of loads "clock w + t" "[]"]
    by (auto simp: read_objects_def decode_lines_inbox split: prod.splits)
qed

text \<open>
  \<^verbatim>\<open>
        while self._data_available(end_time - time.time()):
            for obj in self._read_objects():
                ... return obj
        # Return empty dict when timeout.
        return {}
  \<close>
\<close>

function get_response_loop :: "(string \<Rightarrow> json option) \<Rightarrow> int \<Rightarrow> agent \<Rightarrow> json \<times> agent" where
  "get_response_loop loads end_time w =
     (case data_available (end_time - clock w) w of
        (False, w1) \<Rightarrow> (JDict [], w1)
      | (True, w1) \<Rightarrow>
          (case read_objects loads READ_OBJECTS_TIMEOUT w1 of
             (objs, w2) \<Rightarrow>
               (case find_reply objs of
                  Some obj \<Rightarrow> (obj, w2)
                | None \<Rightarrow> get_response_loop loads end_time w2)))"
  by pat_completeness auto

termination get_response_loop
proof (relation "measure (\<lambda>(loads, end_time, w). length (inbox w))", goal_cases)
  case 1
  show ?case by simp
next
  case prems: (2 loads end_time w b w1 objs w2)
  from prems have a: "data_available (end_time - clock w) w = (True, w1)" by simp
  from prems have r: "w2 = snd (read_objects loads READ_OBJECTS_TIMEOUT w1)" by (metis snd_conv)
  from data_available_True [OF a] have "inbox w1 \<noteq> []" "fst (hd (inbox w1)) \<le> clock w1"
    and i: "inbox w1 = inbox w" by simp_all
  from read_objects_shorter [OF this(1,2), of loads READ_OBJECTS_TIMEOUT] r i
  show ?case by simp
qed

declare get_response_loop.simps [simp del]

definition get_response :: "(string \<Rightarrow> json option) \<Rightarrow> int \<Rightarrow> agent \<Rightarrow> json \<times> agent" where
  "get_response loads timeout w = get_response_loop loads (clock w + timeout) w"

subsection \<open>The command engine: \<open>_send\<close>, \<open>cmd_raw\<close>, \<open>cmd\<close>\<close>

text \<open>
  \<^verbatim>\<open>
    def _send(self, data):
        try:
            self._socket.sendall(data)
            self._log_lines(str(data))
        except socket.error, e:
            raise VAgentSocketError("Could not send data: %r" % data, e)
  \<close>
  The messages of the exceptions hold the data itself, not its \<open>%r\<close> layout.
\<close>

definition send :: "string \<Rightarrow> agent \<Rightarrow> (error + unit) \<times> agent" where
  "send data w =
     (case sendall data w of
        (Inl _, w1) \<Rightarrow> (Inl (new_VAgentSocketError data), w1)
      | (Inr _, w1) \<Rightarrow> (Inr (), log_lines data w1))"

text \<open>
  \<^verbatim>\<open>
    def cmd_raw(self, data, timeout=CMD_TIMEOUT, success_resp=True):
        if not self._acquire_lock():
            raise VAgentLockError("Could not acquire exclusive lock to send "
                                  "data: %r" % data)
        try:
            self._read_objects()
            self._send(data)
            # Return directly for some cmd without any response.
            if not success_resp:
                return {}
            # Read response
            r = self._get_response(timeout)
        finally:
            self._lock.release()
        if r is None:
            raise VAgentProtocolError("Received no response to data: %r" % data)
        return r
  \<close>
  The \<open>finally\<close> clause is the \<open>lock_release\<close> on each way out of the \<open>try\<close>.
\<close>

definition cmd_raw :: "(string \<Rightarrow> json option) \<Rightarrow> string \<Rightarrow> int \<Rightarrow> bool \<Rightarrow> agent \<Rightarrow> (error + json) \<times> agent" where
  "cmd_raw loads data timeout success_resp w =
     (case acquire_lock w of
        (False, w0) \<Rightarrow> (Inl (new_VAgentLockError data), w0)
      | (True, w0) \<Rightarrow>
          (case read_objects loads READ_OBJECTS_TIMEOUT w0 of
             (stale, w1) \<Rightarrow>
               (case send data w1 of
                  (Inl e, w2) \<Rightarrow> (Inl e, lock_release w2)
                | (Inr _, w2) \<Rightarrow>
                    if \<not> success_resp then (Inr (JDict []), lock_release w2)
                    else
                      (case get_response loads timeout w2 of
                         (r, w3) \<Rightarrow>
                           if r = JNull then (Inl (new_VAgentProtocolError data), lock_release w3)
                           else (Inr r, lock_release w3)))))"

text \<open>
  \<^verbatim>\<open>
    def _build_cmd(self, cmd, args=None):
        obj = {"execute": cmd}
        if args is not None:
            obj["arguments"] = args
        return obj
  \<close>
\<close>

definition build_cmd :: "string \<Rightarrow> json option \<Rightarrow> json" where
  "build_cmd cmd args =
     JDict ((''execute'', JStr cmd) # (case args of None \<Rightarrow> [] | Some a \<Rightarrow> [(''arguments'', a)]))"

text \<open>
  \<open>_log_command\<close> writes when \<open>self.debug_log or debug\<close>.
\<close>

definition log_command :: "string \<Rightarrow> bool \<Rightarrow> string \<Rightarrow> agent \<Rightarrow> agent" where
  "log_command cmd debug extra_str w =
     (if debug_log w \<or> debug then w\<lparr>log := log w @ [LogCommand cmd extra_str]\<rparr> else w)"

text \<open>
  \<open>str(x)\<close> of Python 2 succeeds on every decoded value but a \<open>unicode\<close> object
  with a character outside ASCII, on which it raises \<open>UnicodeEncodeError\<close> (a list or
  a dict prints the \<open>repr\<close> of its elements, which is ASCII).
\<close>

fun str_ok :: "json \<Rightarrow> bool" where
  "str_ok (JStr s) = list_all (\<lambda>c. (of_char c :: nat) < 128) s"
| "str_ok x = True"

text \<open>
  \<^verbatim>\<open>
        def _dump_list(li, indent=0):
            for l in li:
                if isinstance(l, dict):
                    _dump_dict(l, indent + 2)
                else:
                    _log_output(str(l), indent)

        def _dump_dict(di, indent=0):
            for k, v in di.iteritems():
                o = "%s%s: " % (" " * indent, k)
                if isinstance(v, dict):
                    _log_output(o, indent)
                    _dump_dict(v, indent + 2)
                elif isinstance(v, list):
                    _log_output(o, indent)
                    _dump_list(v, indent + 2)
                else:
                    o += str(v)
                    _log_output(o, indent)
  \<close>
  Whether the two local functions of \<open>_log_response\<close> run to their end: they do
  unless one of their calls of \<open>str\<close> raises.
\<close>

fun dump_dict :: "(string \<times> json) list \<Rightarrow> bool"
  and dump_list :: "json list \<Rightarrow> bool" where
  "dump_dict [] = True"
| "dump_dict ((k, JDict kv) # rest) = (dump_dict kv \<and> dump_dict rest)"
| "dump_dict ((k, JList xs) # rest) = (dump_list xs \<and> dump_dict rest)"
| "dump_dict ((k, v) # rest) = (str_ok v \<and> dump_dict rest)"
| "dump_list [] = True"
| "dump_list (JDict kv # rest) = (dump_dict kv \<and> dump_list rest)"
| "dump_list (l # rest) = (str_ok l \<and> dump_list rest)"

text \<open>
  \<^verbatim>\<open>
        if self.debug_log or debug:
            logging.debug("(vagent %s) Response to '%s' "
                          "(re-formated)", self.name, cmd)
            if isinstance(resp, dict):
                _dump_dict(resp)
            elif isinstance(resp, list):
                _dump_list(resp)
            else:
                for l in str(resp).splitlines():
                    _log_output(l)
  \<close>
  \<open>dump_response\<close> says whether the three branches run to their end; when a call
  of \<open>str\<close> raises, the exception leaves \<open>_log_response\<close>.
\<close>

definition dump_response :: "json \<Rightarrow> bool" where
  "dump_response resp =
     (case resp of JDict kv \<Rightarrow> dump_dict kv | JList xs \<Rightarrow> dump_list xs | _ \<Rightarrow> str_ok resp)"

definition log_response :: "string \<Rightarrow> json \<Rightarrow> bool \<Rightarrow> agent \<Rightarrow> (error + unit) \<times> agent" where
  "log_response cmd resp debug w =
     (if debug_log w \<or> debug
      then
        (if dump_response resp
         then (Inr (), w\<lparr>log := log w @ [LogResponse cmd resp]\<rparr>)
         else (Inl UnicodeEncodeError, w\<lparr>log := log w @ [LogResponse cmd resp]\<rparr>))
      else (Inr (), w))"

text \<open>
  \<open>k in r\<close> and \<open>r[k]\<close> for a string \<open>k\<close> and any object \<open>r\<close>: the keys of a dict,
  the elements of a list, the substrings of a string; \<open>None\<close>, booleans and numbers are
  not iterable, and only a dict is indexed by a string.
\<close>

fun py_in :: "string \<Rightarrow> json \<Rightarrow> error + bool" where
  "py_in k (JDict kv) = Inr (has_key kv k)"
| "py_in k (JList xs) = Inr (JStr k \<in> set xs)"
| "py_in k (JStr s) = Inr (sublist k s)"
| "py_in k r = Inl TypeError"

fun getitem :: "json \<Rightarrow> string \<Rightarrow> error + json" where
  "getitem (JDict kv) k = (case map_of kv k of Some v \<Rightarrow> Inr v | None \<Rightarrow> Inl KeyError)"
| "getitem r k = Inl TypeError"

text \<open>
  \<^verbatim>\<open>
    def cmd(self, cmd, args=None, timeout=CMD_TIMEOUT, debug=True,
            success_resp=True):
        self._log_command(cmd, debug)
        # Send command
        cmdobj = self._build_cmd(cmd, args)
        data = json.dumps(cmdobj) + "\n"
        r = self.cmd_raw(data, timeout, success_resp)

        if not success_resp:
            return ""

        if "return" in r:
            ret = r["return"]
            if ret:
                self._log_response(cmd, ret, debug)
            return ret
        if "error" in r:
            raise VAgentCmdError(cmd, args, r["error"])
  \<close>
  \<open>json.dumps\<close> is the parameter \<open>dumps\<close>. A call that reaches the end of the body
  returns \<open>None\<close>.
\<close>

definition cmd :: "(string \<Rightarrow> json option) \<Rightarrow> (json \<Rightarrow> string) \<Rightarrow> string \<Rightarrow> json option \<Rightarrow> int \<Rightarrow> bool \<Rightarrow> bool \<Rightarrow> agent \<Rightarrow> (error + json) \<times> agent" where
  "cmd loads dumps name args timeout debug success_resp w =
     (case cmd_raw loads (dumps (build_cmd name args) @ [CHR 0x0A]) timeout success_resp
             (log_command name debug [] w) of
        (Inl e, w1) \<Rightarrow> (Inl e, w1)
      | (Inr r, w1) \<Rightarrow>
          if \<not> success_resp then (Inr (JStr []), w1)
          else
            (case py_in ''return'' r of
               Inl e \<Rightarrow> (Inl e, w1)
             | Inr True \<Rightarrow>
                 (case getitem r ''return'' of
                    Inl e \<Rightarrow> (Inl e, w1)
                  | Inr ret \<Rightarrow>
                      if truthy ret
                      then
                        (case log_response name ret debug w1 of
                           (Inl e, w2) \<Rightarrow> (Inl e, w2)
                         | (Inr _, w2) \<Rightarrow> (Inr ret, w2))
                      else (Inr ret, w1))
             | Inr False \<Rightarrow>
                 (case py_in ''error'' r of
                    Inl e \<Rightarrow> (Inl e, w1)
                  | Inr True \<Rightarrow>
                      (case getitem r ''error'' of
                         Inl e \<Rightarrow> (Inl e, w1)
                       | Inr data \<Rightarrow> (Inl (new_VAgentCmdError name args data), w1))
                  | Inr False \<Rightarrow> (Inr JNull, w1))))"

subsection \<open>The capability cache: \<open>_get_supported_cmds\<close>, \<open>_has_command\<close>\<close>

text \<open>
  \<open>cmds.has_key(k)\<close>: only a dict has the method. \<open>for n in cmd_list\<close>: the elements
  of a list, the keys of a dict, the characters of a string; nothing else is iterable.
\<close>

fun py_has_key :: "json \<Rightarrow> string \<Rightarrow> error + bool" where
  "py_has_key (JDict kv) k = Inr (has_key kv k)"
| "py_has_key r k = Inl AttributeError"

fun py_iter :: "json \<Rightarrow> error + json list" where
  "py_iter (JList xs) = Inr xs"
| "py_iter (JDict kv) = Inr (map (\<lambda>p. JStr (fst p)) kv)"
| "py_iter (JStr s) = Inr (map (\<lambda>c. JStr [c]) s)"
| "py_iter r = Inl TypeError"

text \<open>
  \<^verbatim>\<open>
  [n["name"] for n in cmd_list if isinstance(n, dict) and n.has_key("name")]
  \<close>
\<close>

fun names_of :: "json list \<Rightarrow> json list" where
  "names_of [] = []"
| "names_of (JDict kv # ns) =
     (case map_of kv ''name'' of Some v \<Rightarrow> v # names_of ns | None \<Rightarrow> names_of ns)"
| "names_of (n # ns) = names_of ns"

text \<open>
  \<^verbatim>\<open>
    def _get_supported_cmds(self):
        cmds = self.cmd("guest-info", debug=False)
        if cmds and cmds.has_key("supported_commands"):
            cmd_list = cmds["supported_commands"]
            self._supported_cmds = [n["name"] for n in cmd_list if
                                    isinstance(n, dict) and n.has_key("name")]

        if not self._supported_cmds:
            # If initiation fails, set supported list to a None-only list.
            self._supported_cmds = [None]
            logging.warn("Could not get supported guest agent cmds list")
  \<close>
  \<open>read_cmds\<close> is the first \<open>if\<close>: the instance after it, or the exception it raises.
\<close>

definition read_cmds :: "json \<Rightarrow> agent \<Rightarrow> error + agent" where
  "read_cmds cmds w =
     (if \<not> truthy cmds then Inr w
      else
        (case py_has_key cmds ''supported_commands'' of
           Inl e \<Rightarrow> Inl e
         | Inr False \<Rightarrow> Inr w
         | Inr True \<Rightarrow>
             (case getitem cmds ''supported_commands'' of
                Inl e \<Rightarrow> Inl e
              | Inr cmd_list \<Rightarrow>
                  (case py_iter cmd_list of
                     Inl e \<Rightarrow> Inl e
                   | Inr ns \<Rightarrow> Inr (w\<lparr>supported_cmds := names_of ns\<rparr>)))))"

definition get_supported_cmds :: "(string \<Rightarrow> json option) \<Rightarrow> (json \<Rightarrow> string) \<Rightarrow> agent \<Rightarrow> (error + unit) \<times> agent" where
  "get_supported_cmds loads dumps w =
     (case cmd loads dumps ''guest-info'' None CMD_TIMEOUT False True w of
        (Inl e, w1) \<Rightarrow> (Inl e, w1)
      | (Inr cmds, w1) \<Rightarrow>
          (case read_cmds cmds w1 of
             Inl e \<Rightarrow> (Inl e, w1)
           | Inr w2 \<Rightarrow>
               if supported_cmds w2 = []
               then (Inr (), w2\<lparr>supported_cmds := [JNull],
                       log := log w2 @ [LogWarn ''Could not get supported guest agent cmds list'']\<rparr>)
               else (Inr (), w2)))"

text \<open>
  \<^verbatim>\<open>
    def _has_command(self, cmd):
        # Initiate supported cmds list if it's empty.
        if not self._supported_cmds:
            self.get_supported_cmds()

        # If the first element in supported cmd list is 'None', it means
        # autotest fails to get the cmd list, so bypass cmd checking.
        if self._supported_cmds[0] is None:
            return True

        if cmd and cmd in self._supported_cmds:
            return True
        return False
  \<close>
  The class defines \<open>_get_supported_cmds\<close> and calls it by that name in \<open>__init__\<close>;
  it defines no \<open>get_supported_cmds\<close>. What the attribute \<open>self.get_supported_cmds\<close>
  is bound to is therefore a parameter, \<open>inherited\<close>: \<open>None\<close> when no class of the
  instance binds the name (the lookup raises \<open>AttributeError\<close>), and the method of a
  base class otherwise. The argument \<open>cmd\<close>, here \<open>name\<close>, is a string, so
  \<open>cmd in self._supported_cmds\<close> asks for the element \<open>JStr name\<close>.
\<close>

definition has_command :: "(agent \<Rightarrow> (error + unit) \<times> agent) option \<Rightarrow> string \<Rightarrow> agent \<Rightarrow> (error + bool) \<times> agent" where
  "has_command inherited name w =
     (case (if supported_cmds w = []
            then (case inherited of None \<Rightarrow> (Inl AttributeError, w) | Some m \<Rightarrow> m w)
            else (Inr (), w)) of
        (Inl e, w1) \<Rightarrow> (Inl e, w1)
      | (Inr _, w1) \<Rightarrow>
          (case supported_cmds w1 of
             [] \<Rightarrow> (Inl IndexError, w1)
           | first # others \<Rightarrow>
               if first = JNull then (Inr True, w1)
               else if name \<noteq> [] \<and> JStr name \<in> set (supported_cmds w1) then (Inr True, w1)
               else (Inr False, w1)))"

subsection \<open>Callers and examples\<close>

text \<open>
  A caller that issues raw commands one after the other and goes on after each of
  them, whatever it returned or raised.
\<close>

fun cmd_raw_calls :: "(string \<Rightarrow> json option) \<Rightarrow> (string \<times> int \<times> bool) list \<Rightarrow> agent \<Rightarrow> agent" where
  "cmd_raw_calls loads [] w = w"
| "cmd_raw_calls loads ((data, timeout, success_resp) # calls) w =
     cmd_raw_calls loads calls (snd (cmd_raw loads data timeout success_resp w))"

text \<open>The text of the first \<open>n\<close> pieces of the inbox.\<close>

definition received :: "nat \<Rightarrow> agent \<Rightarrow> string" where
  "received n w = concat (map snd (take n (inbox w)))"

text \<open>
  The lines of the examples, the two halves of the first of them, and a decoder and
  an encoder that know exactly these lines:
  any other text does not decode, as \<open>json.loads\<close> raises on a broken line.
\<close>

definition reply_empty_line :: string where
  \<open>reply_empty_line = ''{"return": {}}''\<close>

definition reply_error_line :: string where
  \<open>reply_error_line = ''{"error": {"class": "Foo", "desc": "bad"}}''\<close>

definition reply_info_line :: string where
  \<open>reply_info_line =
     ''{"return": {"supported_commands": [{"name": "guest-ping"}, {"name": "guest-shutdown"}]}}''\<close>

definition reply_blank_name_line :: string where
  \<open>reply_blank_name_line = ''{"return": {"supported_commands": [{"name": ""}]}}''\<close>

definition reply_empty_head :: string where
  \<open>reply_empty_head = ''{"ret''\<close>


definition example_loads :: "string \<Rightarrow> json option" where
  "example_loads line =
     map_of
       [(reply_empty_line, JDict [(''return'', JDict [])]),
        (reply_error_line,
           JDict [(''error'', JDict [(''class'', JStr ''Foo''), (''desc'', JStr ''bad'')])]),
        (reply_info_line,
           JDict [(''return'', JDict [(''supported_commands'',
              JList [JDict [(''name'', JStr ''guest-ping'')],
                     JDict [(''name'', JStr ''guest-shutdown'')]])])]),
        (reply_blank_name_line,
           JDict [(''return'', JDict [(''supported_commands'',
              JList [JDict [(''name'', JStr [])]])])])]
       line"

definition example_dumps :: "json \<Rightarrow> string" where
  \<open>example_dumps obj =
     (if obj = build_cmd ''guest-ping'' None then ''{"execute": "guest-ping"}''
      else if obj = build_cmd ''guest-info'' None then ''{"execute": "guest-info"}''
      else if obj = build_cmd ''guest-sync'' (Some (JDict [(''id'', JNum 42)]))
        then ''{"execute": "guest-sync", "arguments": {"id": 42}}''
      else ''{}'')\<close>

text \<open>
  A fresh instance at time 0 with a silent guest; the same with one piece of text
  that arrives at a given time; the same with a socket whose next three \<open>sendall\<close>
  fail.
\<close>

definition idle :: agent where
  "idle = \<lparr>clock = 0, inbox = [], outbox = [], send_faults = [], locked = False,
           supported_cmds = [], debug_log = False, log = []\<rparr>"

definition guest_sends :: "int \<Rightarrow> string \<Rightarrow> agent" where
  "guest_sends at text = idle\<lparr>inbox := [(at, text)]\<rparr>"

definition faulty :: agent where
  "faulty = idle\<lparr>send_faults := [True, True, True]\<rparr>"


section \<open>Properties\<close>

subsection \<open>Auxiliary facts\<close>

lemma decode_lines_eq:
  "fst (decode_lines loads ls objs w) = objs @ List.map_filter loads ls"
  by (induction ls arbitrary: objs w) (auto simp: List.map_filter_simps split: option.splits)

lemma recvall_take:
  "\<exists>n. inbox (snd (recvall w)) = drop n (inbox w) \<and>
       fst (recvall w) = concat (map snd (take n (inbox w)))"
  by (rule exI [of _ "length (takeWhile (\<lambda>p. fst p \<le> clock w) (inbox w))"])
     (simp add: recvall_def dropWhile_eq_drop takeWhile_eq_take [symmetric])

lemma take_drop_concat:
  "concat (map snd (take n xs)) @ concat (map snd (take m (drop n xs))) =
   concat (map snd (take (n + m) xs))"
  by (simp add: take_add)

lemma read_loop_take:
  "\<exists>n. inbox (snd (read_loop loads e s w)) = drop n (inbox w) \<and>
       fst (read_loop loads e s w) = s @ concat (map snd (take n (inbox w)))"
proof (induction loads e s w rule: read_loop.induct)
  case (1 loads end_time s w)
  obtain b w1 where a: "data_available (end_time - clock w) w = (b, w1)"
    by (cases "data_available (end_time - clock w) w")
  have i: "inbox w1 = inbox w"
    using data_available_inbox [of "end_time - clock w" w] a by simp
  show ?case
  proof (cases b)
    case False
    with a i have "inbox (snd (read_loop loads end_time s w)) = drop 0 (inbox w) \<and>
       fst (read_loop loads end_time s w) = s @ concat (map snd (take 0 (inbox w)))"
      by (simp add: read_loop.simps [of loads end_time s w])
    then show ?thesis by blast
  next
    case True
    obtain d w2 where r: "recvall w1 = (d, w2)" by (cases "recvall w1")
    from recvall_take [of w1] r i obtain n where
      n: "inbox w2 = drop n (inbox w)" "d = concat (map snd (take n (inbox w)))"
      by auto
    show ?thesis
    proof (cases "all_lines_ok loads (s @ d)")
      case ok: True
      with a True r n have "inbox (snd (read_loop loads end_time s w)) = drop n (inbox w) \<and>
         fst (read_loop loads end_time s w) = s @ concat (map snd (take n (inbox w)))"
        by (simp add: read_loop.simps [of loads end_time s w])
      then show ?thesis by blast
    next
      case notok: False
      from "1" [of b w1 d w2] a True r notok obtain m where
        m: "inbox (snd (read_loop loads end_time (s @ d) w2)) = drop m (inbox w2)"
           "fst (read_loop loads end_time (s @ d) w2) = (s @ d) @ concat (map snd (take m (inbox w2)))"
        by auto
      have eq: "read_loop loads end_time s w = read_loop loads end_time (s @ d) w2"
        using a True r notok by (simp add: read_loop.simps [of loads end_time s w])
      have "inbox (snd (read_loop loads end_time s w)) = drop (n + m) (inbox w) \<and>
         fst (read_loop loads end_time s w) = s @ concat (map snd (take (n + m) (inbox w)))"
        using eq m n take_drop_concat [of n "inbox w" m] by (simp add: add.commute)
      then show ?thesis by blast
    qed
  qed
qed

lemma read_objects_take:
  "\<exists>n. inbox (snd (read_objects loads t w)) = drop n (inbox w) \<and>
       fst (read_objects loads t w) =
         List.map_filter loads (splitlines (concat (map snd (take n (inbox w)))))"
proof -
  obtain b w0 where a: "data_available DATA_AVAILABLE_TIMEOUT w = (b, w0)"
    by (cases "data_available DATA_AVAILABLE_TIMEOUT w")
  have i: "inbox w0 = inbox w"
    using data_available_inbox [of DATA_AVAILABLE_TIMEOUT w] a by simp
  show ?thesis
  proof (cases b)
    case False
    with a i have "inbox (snd (read_objects loads t w)) = drop 0 (inbox w) \<and>
       fst (read_objects loads t w) =
         List.map_filter loads (splitlines (concat (map snd (take 0 (inbox w)))))"
      by (simp add: read_objects_def splitlines_def List.map_filter_simps)
    then show ?thesis by blast
  next
    case True
    obtain s w1 where r: "read_loop loads (clock w0 + t) [] w0 = (s, w1)"
      by (cases "read_loop loads (clock w0 + t) [] w0")
    from read_loop_take [of loads "clock w0 + t" "[]" w0] r i obtain n where
      n: "inbox w1 = drop n (inbox w)" "s = concat (map snd (take n (inbox w)))"
      by auto
    have "read_objects loads t w = decode_lines loads (splitlines s) [] w1"
      using a True r by (simp add: read_objects_def)
    with n have "inbox (snd (read_objects loads t w)) = drop n (inbox w) \<and>
       fst (read_objects loads t w) =
         List.map_filter loads (splitlines (concat (map snd (take n (inbox w)))))"
      by (simp add: decode_lines_inbox decode_lines_eq)
    then show ?thesis by blast
  qed
qed

lemma find_reply_Some:
  "find_reply objs = Some r \<Longrightarrow>
     \<exists>kv. r = JDict kv \<and> (has_key kv ''return'' \<or> has_key kv ''error'') \<and> r \<in> set objs"
  by (induction objs rule: find_reply.induct) (auto split: if_splits)

lemma get_response_loop_result:
  "fst (get_response_loop loads e w) = JDict [] \<or>
   (\<exists>kv. fst (get_response_loop loads e w) = JDict kv \<and>
         (has_key kv ''return'' \<or> has_key kv ''error''))"
proof (induction loads e w rule: get_response_loop.induct)
  case (1 loads end_time w)
  obtain b w1 where a: "data_available (end_time - clock w) w = (b, w1)"
    by (cases "data_available (end_time - clock w) w")
  show ?case
  proof (cases b)
    case False
    with a show ?thesis by (simp add: get_response_loop.simps [of loads end_time w])
  next
    case True
    obtain objs w2 where r: "read_objects loads READ_OBJECTS_TIMEOUT w1 = (objs, w2)"
      by (cases "read_objects loads READ_OBJECTS_TIMEOUT w1")
    show ?thesis
    proof (cases "find_reply objs")
      case None
      from "1" [of b w1 objs w2] a True r None
      have "fst (get_response_loop loads end_time w2) = JDict [] \<or>
        (\<exists>kv. fst (get_response_loop loads end_time w2) = JDict kv \<and>
         (has_key kv ''return'' \<or> has_key kv ''error''))" by simp
      moreover have "get_response_loop loads end_time w = get_response_loop loads end_time w2"
        using a True r None by (simp add: get_response_loop.simps [of loads end_time w])
      ultimately show ?thesis by simp
    next
      case (Some obj)
      from find_reply_Some [OF Some] obtain kv where
        "obj = JDict kv" "has_key kv ''return'' \<or> has_key kv ''error''" by blast
      moreover have "get_response_loop loads end_time w = (obj, w2)"
        using a True r Some by (simp add: get_response_loop.simps [of loads end_time w])
      ultimately show ?thesis by simp
    qed
  qed
qed

lemma get_response_not_None: "fst (get_response loads t w) \<noteq> JNull"
  using get_response_loop_result [of loads "clock w + t" w]
  by (auto simp: get_response_def)

lemma new_VAgentError_TypeError:
  "new_VAgentLockError m = TypeError" "new_VAgentProtocolError m = TypeError"
  "new_VAgentSocketError m = TypeError" "new_VAgentCmdError c a d = TypeError"
  by (simp_all add: new_VAgentLockError_def new_VAgentProtocolError_def
      new_VAgentSocketError_def new_VAgentCmdError_def VAgentError_init_def)

lemma py_in_error: "py_in k r = Inl e \<Longrightarrow> e = TypeError"
  by (cases r) auto

lemma getitem_error: "getitem r k = Inl e \<Longrightarrow> e = TypeError \<or> e = KeyError"
  by (cases r) (auto split: option.splits)

lemma log_response_error:
  "log_response c r d w = (Inl e, w') \<Longrightarrow> e = UnicodeEncodeError"
  by (auto simp: log_response_def split: if_splits)

lemma map_of_has_key: "map_of kv k = Some v \<Longrightarrow> has_key kv k"
  by (auto simp: has_key_def dest: map_of_SomeD intro: rev_image_eqI)

text \<open>No method but \<open>_get_supported_cmds\<close> writes the capability set.\<close>

lemma data_available_supported: "supported_cmds (snd (data_available t w)) = supported_cmds w"
  by (simp add: data_available_def Let_def split: list.splits prod.splits)

lemma recvall_supported: "supported_cmds (snd (recvall w)) = supported_cmds w"
  by (simp add: recvall_def)

lemma decode_lines_supported: "supported_cmds (snd (decode_lines loads ls objs w)) = supported_cmds w"
  by (induction ls arbitrary: objs w) (auto simp: log_lines_def split: option.splits)

lemma read_loop_supported: "supported_cmds (snd (read_loop loads e s w)) = supported_cmds w"
proof (induction loads e s w rule: read_loop.induct)
  case (1 loads end_time s w)
  obtain b w1 where a: "data_available (end_time - clock w) w = (b, w1)"
    by (cases "data_available (end_time - clock w) w")
  have i: "supported_cmds w1 = supported_cmds w"
    using data_available_supported [of "end_time - clock w" w] a by simp
  show ?case
  proof (cases b)
    case False
    with a i show ?thesis by (simp add: read_loop.simps [of loads end_time s w])
  next
    case True
    obtain d w2 where r: "recvall w1 = (d, w2)" by (cases "recvall w1")
    have l: "supported_cmds w2 = supported_cmds w"
      using recvall_supported [of w1] r i by simp
    show ?thesis
    proof (cases "all_lines_ok loads (s @ d)")
      case ok: True
      with a True r l show ?thesis by (simp add: read_loop.simps [of loads end_time s w])
    next
      case notok: False
      from "1" [of b w1 d w2] a True r notok
      have "supported_cmds (snd (read_loop loads end_time (s @ d) w2)) = supported_cmds w2"
        by simp
      with a True r notok l show ?thesis by (simp add: read_loop.simps [of loads end_time s w])
    qed
  qed
qed

lemma read_objects_supported: "supported_cmds (snd (read_objects loads t w)) = supported_cmds w"
proof -
  obtain b w0 where a: "data_available DATA_AVAILABLE_TIMEOUT w = (b, w0)"
    by (cases "data_available DATA_AVAILABLE_TIMEOUT w")
  have i: "supported_cmds w0 = supported_cmds w"
    using data_available_supported [of DATA_AVAILABLE_TIMEOUT w] a by simp
  show ?thesis
    using a i read_loop_supported [of loads "clock w0 + t" "[]" w0]
    by (cases b) (auto simp: read_objects_def decode_lines_supported split: prod.splits)
qed

lemma get_response_loop_supported:
  "supported_cmds (snd (get_response_loop loads e w)) = supported_cmds w"
proof (induction loads e w rule: get_response_loop.induct)
  case (1 loads end_time w)
  obtain b w1 where a: "data_available (end_time - clock w) w = (b, w1)"
    by (cases "data_available (end_time - clock w) w")
  have i: "supported_cmds w1 = supported_cmds w"
    using data_available_supported [of "end_time - clock w" w] a by simp
  show ?case
  proof (cases b)
    case False
    with a i show ?thesis by (simp add: get_response_loop.simps [of loads end_time w])
  next
    case True
    obtain objs w2 where r: "read_objects loads READ_OBJECTS_TIMEOUT w1 = (objs, w2)"
      by (cases "read_objects loads READ_OBJECTS_TIMEOUT w1")
    have l: "supported_cmds w2 = supported_cmds w"
      using read_objects_supported [of loads READ_OBJECTS_TIMEOUT w1] r i by simp
    show ?thesis
    proof (cases "find_reply objs")
      case None
      from "1" [of b w1 objs w2] a True r None
      have "supported_cmds (snd (get_response_loop loads end_time w2)) = supported_cmds w2"
        by simp
      with a True r None l show ?thesis
        by (simp add: get_response_loop.simps [of loads end_time w])
    next
      case (Some obj)
      with a True r l show ?thesis
        by (simp add: get_response_loop.simps [of loads end_time w])
    qed
  qed
qed

lemma send_supported: "supported_cmds (snd (send data w)) = supported_cmds w"
  by (auto simp: send_def sendall_def log_lines_def split: list.splits prod.splits sum.splits)

lemma get_response_supported: "supported_cmds (snd (get_response loads t w)) = supported_cmds w"
  by (simp add: get_response_def get_response_loop_supported)

lemma cmd_raw_supported: "supported_cmds (snd (cmd_raw loads data t sr w)) = supported_cmds w"
proof (cases "locked w")
  case True
  then show ?thesis by (simp add: cmd_raw_def acquire_lock_def)
next
  case False
  define w0 where "w0 = w\<lparr>locked := True\<rparr>"
  obtain stale w1 where r: "read_objects loads READ_OBJECTS_TIMEOUT w0 = (stale, w1)"
    by (cases "read_objects loads READ_OBJECTS_TIMEOUT w0")
  obtain res w2 where s: "send data w1 = (res, w2)" by (cases "send data w1")
  obtain rep w3 where g: "get_response loads t w2 = (rep, w3)"
    by (cases "get_response loads t w2")
  have "supported_cmds w1 = supported_cmds w"
    using read_objects_supported [of loads READ_OBJECTS_TIMEOUT w0] r by (simp add: w0_def)
  moreover have "supported_cmds w2 = supported_cmds w1"
    using send_supported [of data w1] s by simp
  moreover have "supported_cmds w3 = supported_cmds w2"
    using get_response_supported [of loads t w2] g by simp
  ultimately show ?thesis
    using False r s g
    by (cases res) (simp_all add: cmd_raw_def acquire_lock_def lock_release_def w0_def)
qed

lemma log_response_supported:
  "log_response c r d w = (x, w') \<Longrightarrow> supported_cmds w' = supported_cmds w"
  by (auto simp: log_response_def split: if_splits)

lemma cmd_supported:
  "supported_cmds (snd (cmd loads dumps name args t debug sr w)) = supported_cmds w"
proof -
  obtain res w1 where c: "cmd_raw loads (dumps (build_cmd name args) @ [CHR 0x0A]) t sr
      (log_command name debug [] w) = (res, w1)"
    by (cases "cmd_raw loads (dumps (build_cmd name args) @ [CHR 0x0A]) t sr
      (log_command name debug [] w)")
  have "supported_cmds (log_command name debug [] w) = supported_cmds w"
    by (simp add: log_command_def)
  with cmd_raw_supported [of loads "dumps (build_cmd name args) @ [CHR 0x0A]" t sr
      "log_command name debug [] w"] c
  have s1: "supported_cmds w1 = supported_cmds w" by simp
  show ?thesis
    using c s1
    by (auto simp: cmd_def split: sum.splits bool.splits prod.splits
        dest: log_response_supported)
qed

lemma map_of_no_key: "map_of kv k = None \<Longrightarrow> \<not> has_key kv k"
  by (simp add: has_key_def map_of_eq_None_iff)

text \<open>The clock during a read attempt, and what is left to read after it.\<close>

lemma data_available_clock:
  "clock w \<le> clock (snd (data_available t w)) \<and>
   clock (snd (data_available t w)) \<le> max (clock w) (clock w + t)"
  by (auto simp: data_available_def Let_def split: list.splits prod.splits)

lemma data_available_False:
  "data_available t w = (False, w1) \<Longrightarrow>
     clock w + t \<le> clock w1 \<and> (inbox w1 = [] \<or> clock w1 < fst (hd (inbox w1)))"
  by (auto simp: data_available_def Let_def split: list.splits prod.splits if_splits)

lemma recvall_clock: "clock (snd (recvall w)) = clock w"
  by (simp add: recvall_def)

lemma recvall_drained:
  "inbox (snd (recvall w)) = [] \<or> clock (snd (recvall w)) < fst (hd (inbox (snd (recvall w))))"
proof -
  have "dropWhile P xs = [] \<or> \<not> P (hd (dropWhile P xs))" for P and xs :: "(int \<times> string) list"
    using hd_dropWhile [of P xs] by blast
  from this [of "\<lambda>p. fst p \<le> clock w" "inbox w"] show ?thesis
    by (auto simp: recvall_def)
qed

lemma decode_lines_clock: "clock (snd (decode_lines loads ls objs w)) = clock w"
  by (induction ls arbitrary: objs w) (auto simp: log_lines_def split: option.splits)

lemma read_loop_timing:
  "clock w \<le> clock (snd (read_loop loads e s w)) \<and>
   clock (snd (read_loop loads e s w)) \<le> max (clock w) e \<and>
   (inbox (snd (read_loop loads e s w)) = [] \<or>
    clock (snd (read_loop loads e s w)) < fst (hd (inbox (snd (read_loop loads e s w))))) \<and>
   (all_lines_ok loads (fst (read_loop loads e s w)) \<or> e \<le> clock (snd (read_loop loads e s w)))"
proof (induction loads e s w rule: read_loop.induct)
  case (1 loads end_time s w)
  obtain b w1 where a: "data_available (end_time - clock w) w = (b, w1)"
    by (cases "data_available (end_time - clock w) w")
  have c: "clock w \<le> clock w1" "clock w1 \<le> max (clock w) end_time"
    using data_available_clock [of w "end_time - clock w"] a by auto
  show ?case
  proof (cases b)
    case False
    with a data_available_False [of "end_time - clock w" w w1] c show ?thesis
      by (simp add: read_loop.simps [of loads end_time s w])
  next
    case True
    obtain d w2 where r: "recvall w1 = (d, w2)" by (cases "recvall w1")
    have c2: "clock w2 = clock w1" using recvall_clock [of w1] r by simp
    have dr: "inbox w2 = [] \<or> clock w2 < fst (hd (inbox w2))"
      using recvall_drained [of w1] r by simp
    show ?thesis
    proof (cases "all_lines_ok loads (s @ d)")
      case ok: True
      with a True r c c2 dr show ?thesis by (simp add: read_loop.simps [of loads end_time s w])
    next
      case notok: False
      have eq: "read_loop loads end_time s w = read_loop loads end_time (s @ d) w2"
        using a True r notok by (simp add: read_loop.simps [of loads end_time s w])
      from "1" [of b w1 d w2] a True r notok c c2 show ?thesis
        unfolding eq by auto
    qed
  qed
qed

lemma read_objects_timing:
  "clock w \<le> clock (snd (read_objects loads t w)) \<and>
   clock (snd (read_objects loads t w)) \<le> max (clock w) (clock w + t) \<and>
   (inbox (snd (read_objects loads t w)) = [] \<or>
    clock (snd (read_objects loads t w)) < fst (hd (inbox (snd (read_objects loads t w)))))"
proof -
  obtain b w0 where a: "data_available DATA_AVAILABLE_TIMEOUT w = (b, w0)"
    by (cases "data_available DATA_AVAILABLE_TIMEOUT w")
  have c: "clock w0 = clock w"
    using data_available_clock [of w DATA_AVAILABLE_TIMEOUT] a
    by (simp add: DATA_AVAILABLE_TIMEOUT_def)
  show ?thesis
  proof (cases b)
    case False
    with a c data_available_False [of DATA_AVAILABLE_TIMEOUT w w0] show ?thesis
      by (simp add: read_objects_def)
  next
    case True
    obtain s w1 where r: "read_loop loads (clock w0 + t) [] w0 = (s, w1)"
      by (cases "read_loop loads (clock w0 + t) [] w0")
    have "read_objects loads t w = decode_lines loads (splitlines s) [] w1"
      using a True r by (simp add: read_objects_def)
    with read_loop_timing [of w0 loads "clock w0 + t" "[]"] r c show ?thesis
      by (simp add: decode_lines_clock decode_lines_inbox)
  qed
qed

text \<open>Why the read loop stops, and when.\<close>

lemma recvall_take_pos:
  assumes "inbox w \<noteq> []" and "fst (hd (inbox w)) \<le> clock w"
  shows "\<exists>n>0. inbox (snd (recvall w)) = drop n (inbox w) \<and>
           fst (recvall w) = concat (map snd (take n (inbox w)))"
proof -
  from recvall_take [of w] obtain n where
    n: "inbox (snd (recvall w)) = drop n (inbox w)"
       "fst (recvall w) = concat (map snd (take n (inbox w)))" by blast
  from recvall_shorter [OF assms] n(1) have "0 < n" by (cases n) auto
  with n show ?thesis by blast
qed

lemma hd_in_take: "xs \<noteq> [] \<Longrightarrow> 0 < n \<Longrightarrow> hd xs \<in> set (take n xs)"
  by (cases xs; cases n) auto

lemma set_take_drop_subset: "set (take m (drop n xs)) \<subseteq> set (take (n + m) xs)"
  by (simp add: take_add)

lemma set_take_subset_add: "set (take n xs) \<subseteq> set (take (n + m) xs)"
  by (simp add: take_add)

lemma read_loop_run:
  "\<exists>n. inbox (snd (read_loop loads e s w)) = drop n (inbox w) \<and>
       fst (read_loop loads e s w) = s @ concat (map snd (take n (inbox w))) \<and>
       (all_lines_ok loads (fst (read_loop loads e s w)) \<and> 0 < n \<and>
          (clock (snd (read_loop loads e s w)) = clock w \<or>
           clock (snd (read_loop loads e s w)) \<in> fst ` set (take n (inbox w))) \<or>
        e \<le> clock (snd (read_loop loads e s w)) \<and>
          (n = 0 \<or> \<not> all_lines_ok loads (fst (read_loop loads e s w))))"
proof (induction loads e s w rule: read_loop.induct)
  case (1 loads end_time s w)
  obtain b w1 where a: "data_available (end_time - clock w) w = (b, w1)"
    by (cases "data_available (end_time - clock w) w")
  show ?case
  proof (cases b)
    case False
    with a data_available_False [of "end_time - clock w" w w1]
      data_available_inbox [of "end_time - clock w" w]
    have "inbox (snd (read_loop loads end_time s w)) = drop 0 (inbox w) \<and>
       fst (read_loop loads end_time s w) = s @ concat (map snd (take 0 (inbox w))) \<and>
       end_time \<le> clock (snd (read_loop loads end_time s w))"
      by (simp add: read_loop.simps [of loads end_time s w])
    then show ?thesis by blast
  next
    case True
    with a have a': "data_available (end_time - clock w) w = (True, w1)" by simp
    from data_available_True [OF a'] have i: "inbox w1 = inbox w" "inbox w \<noteq> []"
      "fst (hd (inbox w)) \<le> clock w1" by simp_all
    have c1: "clock w1 = clock w \<or> clock w1 = fst (hd (inbox w))"
      using a' i(2) by (auto simp: data_available_def Let_def max_def split: list.splits if_splits)
    obtain d w2 where r: "recvall w1 = (d, w2)" by (cases "recvall w1")
    from recvall_take_pos [of w1] i r obtain n where
      n: "0 < n" "inbox w2 = drop n (inbox w)" "d = concat (map snd (take n (inbox w)))"
      by auto
    have c2: "clock w2 = clock w1" using recvall_clock [of w1] r by simp
    have hd: "fst (hd (inbox w)) \<in> fst ` set (take n (inbox w))"
      using hd_in_take [OF i(2) n(1)] by blast
    have c: "clock w2 = clock w \<or> clock w2 \<in> fst ` set (take n (inbox w))"
    proof (cases "clock w1 = clock w")
      case True
      with c2 show ?thesis by simp
    next
      case False
      with c1 have "clock w1 = fst (hd (inbox w))" by simp
      with c2 hd show ?thesis by simp
    qed
    show ?thesis
    proof (cases "all_lines_ok loads (s @ d)")
      case ok: True
      then have "read_loop loads end_time s w = (s @ d, w2)"
        using a' r by (simp add: read_loop.simps [of loads end_time s w])
      with ok n c have "inbox (snd (read_loop loads end_time s w)) = drop n (inbox w) \<and>
        fst (read_loop loads end_time s w) = s @ concat (map snd (take n (inbox w))) \<and>
        all_lines_ok loads (fst (read_loop loads end_time s w)) \<and> 0 < n \<and>
          (clock (snd (read_loop loads end_time s w)) = clock w \<or>
           clock (snd (read_loop loads end_time s w)) \<in> fst ` set (take n (inbox w)))"
        by simp
      then show ?thesis by blast
    next
      case notok: False
      have eq: "read_loop loads end_time s w = read_loop loads end_time (s @ d) w2"
        using a' r notok by (simp add: read_loop.simps [of loads end_time s w])
      define res where "res = read_loop loads end_time (s @ d) w2"
      have "\<exists>m. inbox (snd res) = drop m (inbox w2) \<and>
           fst res = (s @ d) @ concat (map snd (take m (inbox w2))) \<and>
           (all_lines_ok loads (fst res) \<and> 0 < m \<and>
              (clock (snd res) = clock w2 \<or> clock (snd res) \<in> fst ` set (take m (inbox w2))) \<or>
            end_time \<le> clock (snd res) \<and> (m = 0 \<or> \<not> all_lines_ok loads (fst res)))"
        unfolding res_def by (rule "1" [of b w1 d w2]) (use a True r notok in simp_all)
      then obtain m where
        m: "inbox (snd res) = drop m (inbox w2)"
           "fst res = (s @ d) @ concat (map snd (take m (inbox w2)))"
           "all_lines_ok loads (fst res) \<and> 0 < m \<and>
              (clock (snd res) = clock w2 \<or> clock (snd res) \<in> fst ` set (take m (inbox w2))) \<or>
            end_time \<le> clock (snd res) \<and> (m = 0 \<or> \<not> all_lines_ok loads (fst res))"
        by blast
      have p1: "inbox (snd res) = drop (n + m) (inbox w)"
        using m(1) n(2) by (simp add: add.commute)
      have p2: "fst res = s @ concat (map snd (take (n + m) (inbox w)))"
        using m(2) n(2,3) take_drop_concat [of n "inbox w" m] by simp
      have sub: "fst ` set (take m (inbox w2)) \<subseteq> fst ` set (take (n + m) (inbox w))"
        using set_take_drop_subset [of m n "inbox w"] n(2) by auto
      have sub2: "fst ` set (take n (inbox w)) \<subseteq> fst ` set (take (n + m) (inbox w))"
        using set_take_subset_add [of n "inbox w" m] by auto
      have m0: "m = 0 \<Longrightarrow> \<not> all_lines_ok loads (fst res)"
        using m(2) notok by simp
      define An where "An = fst ` set (take n (inbox w))"
      define Am where "Am = fst ` set (take m (inbox w2))"
      define Anm where "Anm = fst ` set (take (n + m) (inbox w))"
      have s1: "Am \<subseteq> Anm" "An \<subseteq> Anm"
        using sub sub2 by (simp_all add: An_def Am_def Anm_def)
      have c': "clock w2 = clock w \<or> clock w2 \<in> An" using c by (simp add: An_def)
      have m3: "all_lines_ok loads (fst res) \<and> 0 < m \<and>
              (clock (snd res) = clock w2 \<or> clock (snd res) \<in> Am) \<or>
            end_time \<le> clock (snd res) \<and> (m = 0 \<or> \<not> all_lines_ok loads (fst res))"
        using m(3) by (simp add: Am_def)
      have "all_lines_ok loads (fst res) \<and> 0 < n + m \<and>
              (clock (snd res) = clock w \<or> clock (snd res) \<in> Anm) \<or>
            end_time \<le> clock (snd res) \<and> (n + m = 0 \<or> \<not> all_lines_ok loads (fst res))"
        using m3 c' s1 m0 n(1) by auto
      then have p3: "all_lines_ok loads (fst res) \<and> 0 < n + m \<and>
              (clock (snd res) = clock w \<or> clock (snd res) \<in> fst ` set (take (n + m) (inbox w))) \<or>
            end_time \<le> clock (snd res) \<and> (n + m = 0 \<or> \<not> all_lines_ok loads (fst res))"
        by (simp add: Anm_def)
      from p1 p2 p3 show ?thesis unfolding eq res_def [symmetric] by blast
    qed
  qed
qed







lemma cmd_raw_released:
  "\<not> locked w \<Longrightarrow> \<not> locked (snd (cmd_raw loads data t sr w))"
  by (auto simp: cmd_raw_def acquire_lock_def lock_release_def
      split: prod.splits sum.splits bool.splits)

lemma cmd_raw_calls_released:
  "\<not> locked w \<Longrightarrow> \<not> locked (cmd_raw_calls loads calls w)"
proof (induction calls arbitrary: w)
  case Nil
  then show ?case by simp
next
  case (Cons c calls)
  obtain data timeout sr where c: "c = (data, timeout, sr)" by (cases c)
  from Cons.prems have "\<not> locked (snd (cmd_raw loads data timeout sr w))"
    by (rule cmd_raw_released)
  from Cons.IH [OF this] c show ?case by simp
qed

lemma has_command_populated:
  "supported_cmds w = map JStr ns \<Longrightarrow> ns \<noteq> [] \<Longrightarrow>
     has_command inherited name w = (Inr (name \<noteq> [] \<and> name \<in> set ns), w)"
  by (cases ns) (auto simp: has_command_def)

lemma has_command_unknown:
  "supported_cmds w = [JNull] \<Longrightarrow> has_command inherited name w = (Inr True, w)"
  by (simp add: has_command_def)

subsection \<open>No reply before the deadline\<close>

text \<open>
  C1. The claim: when no reply record is decoded before the deadline, \<open>_get_response\<close>
  yields a "no reply" sentinel that differs from an empty mapping, \<open>cmd_raw\<close> raises
  \<open>VAgentProtocolError\<close>, and \<open>cmd\<close> returns no value. The code at a guest that
  stays silent: \<open>_get_response\<close> yields the empty mapping, \<open>cmd_raw\<close> returns it, and
  \<open>cmd\<close> returns \<open>None\<close> once the 20 ticks of \<open>CMD_TIMEOUT\<close> have passed. For every
  decoder, time limit and state, \<open>_get_response\<close> never yields \<open>None\<close>, the only value
  for which \<open>cmd_raw\<close> raises.
\<close>

theorem silent_guest_yields_no_error:
  "fst (get_response example_loads CMD_TIMEOUT idle) = JDict [] \<and>
   fst (cmd_raw example_loads (example_dumps (build_cmd ''guest-ping'' None) @ [CHR 0x0A])
          CMD_TIMEOUT True idle) = Inr (JDict []) \<and>
   fst (cmd example_loads example_dumps ''guest-ping'' None CMD_TIMEOUT True True idle) = Inr JNull \<and>
   clock (snd (cmd example_loads example_dumps ''guest-ping'' None CMD_TIMEOUT True True idle)) = 20 \<and>
   fst (get_response loads timeout w) \<noteq> JNull"
proof -
  have "fst (get_response example_loads CMD_TIMEOUT idle) = JDict []" by code_simp
  moreover have "fst (cmd_raw example_loads (example_dumps (build_cmd ''guest-ping'' None) @ [CHR 0x0A])
          CMD_TIMEOUT True idle) = Inr (JDict [])" by code_simp
  moreover have "fst (cmd example_loads example_dumps ''guest-ping'' None CMD_TIMEOUT True True idle) = Inr JNull"
    by code_simp
  moreover have "clock (snd (cmd example_loads example_dumps ''guest-ping'' None CMD_TIMEOUT True True idle)) = 20"
    by code_simp
  ultimately show ?thesis using get_response_not_None [of loads timeout w] by simp
qed

subsection \<open>The first capability check\<close>

text \<open>
  C2. The claim: a capability check on a capability set that is not yet populated
  first issues \<open>guest-info\<close> and then looks the name up. The code calls
  \<open>self.get_supported_cmds()\<close>, a name that the class does not define: on a fresh
  instance, with no base class that binds the name, the check raises \<open>AttributeError\<close>,
  and nothing has been sent.
\<close>

theorem first_check_raises_AttributeError:
  "has_command None ''guest-ping'' idle = (Inl AttributeError, idle)"
  by code_simp

subsection \<open>The decoder reports each line once\<close>

text \<open>
  C3, as stated, fails: a complete line that is followed by the beginning of a second
  line is returned only when the time limit of the call has passed, at time 5, while
  the same line alone is returned at once, at time 0. The complete line is held back
  for the whole time limit only because a later, incomplete line exists.
\<close>

theorem complete_line_withheld_until_deadline:
  "fst (read_objects example_loads READ_OBJECTS_TIMEOUT
          (guest_sends 0 (reply_empty_line @ [CHR 0x0A] @ reply_empty_head))) =
     [JDict [(''return'', JDict [])]] \<and>
   clock (snd (read_objects example_loads READ_OBJECTS_TIMEOUT
          (guest_sends 0 (reply_empty_line @ [CHR 0x0A] @ reply_empty_head)))) = 5 \<and>
   fst (read_objects example_loads READ_OBJECTS_TIMEOUT
          (guest_sends 0 (reply_empty_line @ [CHR 0x0A]))) = [JDict [(''return'', JDict [])]] \<and>
   clock (snd (read_objects example_loads READ_OBJECTS_TIMEOUT
          (guest_sends 0 (reply_empty_line @ [CHR 0x0A])))) = 0"
  by code_simp

text \<open>
  C3, amended. One call of \<open>_read_objects\<close> takes the first \<open>n\<close> pieces of the
  inbox, for some \<open>n\<close>, until nothing more can be read, and returns the decoding of
  each line of their text that decodes, in order and once, whatever the other lines
  are. It returns no later than its deadline. When every line it has read that is not
  empty decodes, it returns without further waiting: at the time it was called, or at
  the time one of the pieces it read arrived. Otherwise it returns when its deadline
  has passed: a complete line followed by an incomplete one is held back until that
  one completes or the deadline has passed.
\<close>

theorem read_objects_each_line_once_until_deadline:
  "\<exists>n. inbox (snd (read_objects loads timeout w)) = drop n (inbox w) \<and>
       (inbox (snd (read_objects loads timeout w)) = [] \<or>
        clock (snd (read_objects loads timeout w)) <
          fst (hd (inbox (snd (read_objects loads timeout w))))) \<and>
       fst (read_objects loads timeout w) = List.map_filter loads (splitlines (received n w)) \<and>
       clock w \<le> clock (snd (read_objects loads timeout w)) \<and>
       clock (snd (read_objects loads timeout w)) \<le> max (clock w) (clock w + timeout) \<and>
       (if \<forall>line \<in> set (splitlines (received n w)). line = [] \<or> loads line \<noteq> None
        then clock (snd (read_objects loads timeout w)) = clock w \<or>
             clock (snd (read_objects loads timeout w)) \<in> fst ` set (take n (inbox w))
        else clock w + timeout \<le> clock (snd (read_objects loads timeout w)))"
proof -
  obtain b w0 where a: "data_available DATA_AVAILABLE_TIMEOUT w = (b, w0)"
    by (cases "data_available DATA_AVAILABLE_TIMEOUT w")
  have c: "clock w0 = clock w"
    using data_available_clock [of w DATA_AVAILABLE_TIMEOUT] a
    by (simp add: DATA_AVAILABLE_TIMEOUT_def)
  have i: "inbox w0 = inbox w"
    using data_available_inbox [of DATA_AVAILABLE_TIMEOUT w] a by simp
  note t = read_objects_timing [of w loads timeout]
  show ?thesis
  proof (cases b)
    case False
    then have "read_objects loads timeout w = ([], w0)"
      using a by (simp add: read_objects_def)
    with i c t have "inbox (snd (read_objects loads timeout w)) = drop 0 (inbox w) \<and>
       (inbox (snd (read_objects loads timeout w)) = [] \<or>
        clock (snd (read_objects loads timeout w)) <
          fst (hd (inbox (snd (read_objects loads timeout w))))) \<and>
       fst (read_objects loads timeout w) = List.map_filter loads (splitlines (received 0 w)) \<and>
       clock w \<le> clock (snd (read_objects loads timeout w)) \<and>
       clock (snd (read_objects loads timeout w)) \<le> max (clock w) (clock w + timeout) \<and>
       (if \<forall>line \<in> set (splitlines (received 0 w)). line = [] \<or> loads line \<noteq> None
        then clock (snd (read_objects loads timeout w)) = clock w \<or>
             clock (snd (read_objects loads timeout w)) \<in> fst ` set (take 0 (inbox w))
        else clock w + timeout \<le> clock (snd (read_objects loads timeout w)))"
      by (simp add: received_def splitlines_def List.map_filter_simps)
    then show ?thesis by blast
  next
    case True
    with a have a': "data_available DATA_AVAILABLE_TIMEOUT w = (True, w0)" by simp
    from data_available_True [OF a'] c have rd: "inbox w0 \<noteq> []" "fst (hd (inbox w0)) \<le> clock w0"
      by simp_all
    define res where "res = read_loop loads (clock w0 + timeout) [] w0"
    from read_loop_run [of loads "clock w0 + timeout" "[]" w0] obtain n where
      n: "inbox (snd res) = drop n (inbox w0)"
         "fst res = [] @ concat (map snd (take n (inbox w0)))"
         "all_lines_ok loads (fst res) \<and> 0 < n \<and>
            (clock (snd res) = clock w0 \<or> clock (snd res) \<in> fst ` set (take n (inbox w0))) \<or>
          clock w0 + timeout \<le> clock (snd res) \<and> (n = 0 \<or> \<not> all_lines_ok loads (fst res))"
      unfolding res_def by blast
    have "length (inbox (snd res)) < length (inbox w0)"
      unfolding res_def by (rule read_loop_shorter [OF rd])
    with n(1) have n0: "n \<noteq> 0" by auto
    have rc: "fst res = received n w" using n(2) i by (simp add: received_def)
    have ro: "read_objects loads timeout w = decode_lines loads (splitlines (fst res)) [] (snd res)"
      using a' by (simp add: read_objects_def res_def split: prod.splits)
    have ck: "clock (snd (read_objects loads timeout w)) = clock (snd res)"
      using ro by (simp add: decode_lines_clock)
    have ok: "all_lines_ok loads (fst res) \<longleftrightarrow>
        (\<forall>line \<in> set (splitlines (received n w)). line = [] \<or> loads line \<noteq> None)"
      by (simp add: rc all_lines_ok_def list_all_iff)
    have "inbox (snd (read_objects loads timeout w)) = drop n (inbox w)"
      using ro n(1) i by (simp add: decode_lines_inbox)
    moreover have "fst (read_objects loads timeout w) =
        List.map_filter loads (splitlines (received n w))"
      using ro rc by (simp add: decode_lines_eq)
    moreover have "if \<forall>line \<in> set (splitlines (received n w)). line = [] \<or> loads line \<noteq> None
        then clock (snd (read_objects loads timeout w)) = clock w \<or>
             clock (snd (read_objects loads timeout w)) \<in> fst ` set (take n (inbox w))
        else clock w + timeout \<le> clock (snd (read_objects loads timeout w))"
      using n(3) n0 ok ck c i by auto
    ultimately show ?thesis using t by blast
  qed
qed

text \<open>
  The example again: the second line does not decode, so the call has waited for its
  deadline, and the object of the first line is what it returns.
\<close>

theorem read_objects_each_line_once_until_deadline_witness:
  "splitlines (received 1 (guest_sends 0 (reply_empty_line @ [CHR 0x0A] @ reply_empty_head))) =
     [reply_empty_line, reply_empty_head] \<and>
   example_loads reply_empty_head = None \<and>
   fst (read_objects example_loads READ_OBJECTS_TIMEOUT
          (guest_sends 0 (reply_empty_line @ [CHR 0x0A] @ reply_empty_head))) =
     [JDict [(''return'', JDict [])]] \<and>
   clock (guest_sends 0 (reply_empty_line @ [CHR 0x0A] @ reply_empty_head)) + READ_OBJECTS_TIMEOUT \<le>
     clock (snd (read_objects example_loads READ_OBJECTS_TIMEOUT
          (guest_sends 0 (reply_empty_line @ [CHR 0x0A] @ reply_empty_head))))"
proof -
  define w where "w = guest_sends 0 (reply_empty_line @ [CHR 0x0A] @ reply_empty_head)"
  have l: "splitlines (received 1 w) = [reply_empty_line, reply_empty_head]"
    unfolding w_def by code_simp
  have u: "example_loads reply_empty_head = None" by code_simp
  have i: "inbox w = [(0, reply_empty_line @ [CHR 0x0A] @ reply_empty_head)]"
    by (simp add: w_def guest_sends_def idle_def)
  have e: "inbox (snd (read_objects example_loads READ_OBJECTS_TIMEOUT w)) = []"
    unfolding w_def by code_simp
  from read_objects_each_line_once_until_deadline [of example_loads READ_OBJECTS_TIMEOUT w]
  obtain n where n: "inbox (snd (read_objects example_loads READ_OBJECTS_TIMEOUT w)) = drop n (inbox w)"
    "fst (read_objects example_loads READ_OBJECTS_TIMEOUT w) =
       List.map_filter example_loads (splitlines (received n w))"
    "if \<forall>line \<in> set (splitlines (received n w)). line = [] \<or> example_loads line \<noteq> None
     then clock (snd (read_objects example_loads READ_OBJECTS_TIMEOUT w)) = clock w \<or>
          clock (snd (read_objects example_loads READ_OBJECTS_TIMEOUT w)) \<in> fst ` set (take n (inbox w))
     else clock w + READ_OBJECTS_TIMEOUT \<le> clock (snd (read_objects example_loads READ_OBJECTS_TIMEOUT w))"
    by blast
  from n(1) e i have "1 \<le> n" by (cases n) simp_all
  then have r: "received n w = received 1 w" using i by (simp add: received_def)
  have h: "reply_empty_head \<noteq> []" by code_simp
  have o: "example_loads reply_empty_line = Some (JDict [(''return'', JDict [])])" by code_simp
  from n(3) r l u h have "clock w + READ_OBJECTS_TIMEOUT \<le>
      clock (snd (read_objects example_loads READ_OBJECTS_TIMEOUT w))" by auto
  moreover from n(2) r l u o have "fst (read_objects example_loads READ_OBJECTS_TIMEOUT w) =
      [JDict [(''return'', JDict [])]]" by (simp add: List.map_filter_simps)
  ultimately show ?thesis using l u unfolding w_def by simp
qed

subsection \<open>Capability checks after discovery\<close>

text \<open>
  C4, as stated, fails where the guest lists an empty name: the reply lists the name
  \<open>""\<close>, the capability set holds it, and the check for it says "not supported".
\<close>

theorem listed_empty_name_not_supported:
  "supported_cmds (snd (get_supported_cmds example_loads example_dumps
      (guest_sends 1 (reply_blank_name_line @ [CHR 0x0A])))) = [JStr []] \<and>
   fst (has_command None [] (snd (get_supported_cmds example_loads example_dumps
      (guest_sends 1 (reply_blank_name_line @ [CHR 0x0A]))))) = Inr False"
  by code_simp

text \<open>
  C4, amended. Discovery from a reply whose payload is a mapping succeeds, where the
  names \<open>ns\<close> (strings) are those extracted from the list under
  \<open>supported_commands\<close>, and there are none when the payload has no such key and the
  capability set was not populated before. When there are names, the capability set
  is \<open>ns\<close>, and a capability check returns true exactly for a listed name that is not
  empty (false for an unlisted name and for the empty name). When there are none, the
  capability set is the sentinel and every capability check returns true.
\<close>

theorem capability_check_after_discovery:
  assumes "fst (cmd loads dumps ''guest-info'' None CMD_TIMEOUT False True w) = Inr (JDict kv)"
    and "map_of kv ''supported_commands'' = Some (JList items) \<or>
         map_of kv ''supported_commands'' = None \<and> supported_cmds w = [] \<and> items = []"
    and "names_of items = map JStr ns"
  shows "fst (get_supported_cmds loads dumps w) = Inr () \<and>
         (ns \<noteq> [] \<longrightarrow>
            supported_cmds (snd (get_supported_cmds loads dumps w)) = map JStr ns \<and>
            (\<forall>name. fst (has_command inherited name (snd (get_supported_cmds loads dumps w))) =
                      Inr (name \<noteq> [] \<and> name \<in> set ns))) \<and>
         (ns = [] \<longrightarrow>
            supported_cmds (snd (get_supported_cmds loads dumps w)) = [JNull] \<and>
            (\<forall>name. fst (has_command inherited name (snd (get_supported_cmds loads dumps w))) =
                      Inr True))"
proof -
  obtain w1 where c: "cmd loads dumps ''guest-info'' None CMD_TIMEOUT False True w = (Inr (JDict kv), w1)"
    using assms(1) by (cases "cmd loads dumps ''guest-info'' None CMD_TIMEOUT False True w") auto
  have f: "supported_cmds w1 = supported_cmds w"
    using cmd_supported [of loads dumps "''guest-info''" None CMD_TIMEOUT False True w] c by simp
  have "\<exists>w2. read_cmds (JDict kv) w1 = Inr w2 \<and> supported_cmds w2 = map JStr ns"
  proof (cases "map_of kv ''supported_commands''")
    case None
    with assms(2) have e: "supported_cmds w = []" "items = []" by simp_all
    with assms(3) have "ns = []" by simp
    moreover have "read_cmds (JDict kv) w1 = Inr w1"
      using map_of_no_key [OF None] by (simp add: read_cmds_def)
    ultimately show ?thesis using f e by simp
  next
    case (Some v)
    with assms(2) have l: "map_of kv ''supported_commands'' = Some (JList items)" by simp
    from l have "has_key kv ''supported_commands''" by (rule map_of_has_key)
    moreover from l have "kv \<noteq> []" by auto
    ultimately have "read_cmds (JDict kv) w1 = Inr (w1\<lparr>supported_cmds := map JStr ns\<rparr>)"
      using l assms(3) by (simp add: read_cmds_def)
    then show ?thesis by simp
  qed
  then obtain w2 where r: "read_cmds (JDict kv) w1 = Inr w2"
    and s: "supported_cmds w2 = map JStr ns" by blast
  show ?thesis
  proof (cases "ns = []")
    case True
    have g: "get_supported_cmds loads dumps w =
      (Inr (), w2\<lparr>supported_cmds := [JNull],
         log := log w2 @ [LogWarn ''Could not get supported guest agent cmds list'']\<rparr>)"
      using c r s True by (simp add: get_supported_cmds_def)
    have "supported_cmds (snd (get_supported_cmds loads dumps w)) = [JNull]"
      using g by simp
    from this has_command_unknown [OF this] g True show ?thesis by simp
  next
    case False
    have g: "get_supported_cmds loads dumps w = (Inr (), w2)"
      using c r s False by (simp add: get_supported_cmds_def)
    have "supported_cmds (snd (get_supported_cmds loads dumps w)) = map JStr ns"
      using g s by simp
    from this has_command_populated [OF this False] g False show ?thesis by simp
  qed
qed

text \<open>
  The examples of the spec: a reply that lists \<open>guest-ping\<close> and \<open>guest-shutdown\<close>,
  and a reply with an empty payload, from which no name is extracted.
\<close>

theorem capability_check_after_discovery_witness:
  "fst (get_supported_cmds example_loads example_dumps (guest_sends 1 (reply_info_line @ [CHR 0x0A]))) = Inr () \<and>
   supported_cmds (snd (get_supported_cmds example_loads example_dumps
      (guest_sends 1 (reply_info_line @ [CHR 0x0A])))) = [JStr ''guest-ping'', JStr ''guest-shutdown''] \<and>
   fst (has_command None ''guest-ping'' (snd (get_supported_cmds example_loads example_dumps
      (guest_sends 1 (reply_info_line @ [CHR 0x0A]))))) = Inr True \<and>
   fst (has_command None ''unknown-cmd'' (snd (get_supported_cmds example_loads example_dumps
      (guest_sends 1 (reply_info_line @ [CHR 0x0A]))))) = Inr False \<and>
   supported_cmds (snd (get_supported_cmds example_loads example_dumps
      (guest_sends 1 (reply_empty_line @ [CHR 0x0A])))) = [JNull] \<and>
   fst (has_command None ''unknown-cmd'' (snd (get_supported_cmds example_loads example_dumps
      (guest_sends 1 (reply_empty_line @ [CHR 0x0A]))))) = Inr True"
proof -
  have a: "fst (cmd example_loads example_dumps ''guest-info'' None CMD_TIMEOUT False True
                 (guest_sends 1 (reply_info_line @ [CHR 0x0A]))) =
           Inr (JDict [(''supported_commands'',
              JList [JDict [(''name'', JStr ''guest-ping'')],
                     JDict [(''name'', JStr ''guest-shutdown'')]])])"
    by code_simp
  have b: "map_of [(''supported_commands'',
              JList [JDict [(''name'', JStr ''guest-ping'')],
                     JDict [(''name'', JStr ''guest-shutdown'')]])] ''supported_commands'' =
           Some (JList [JDict [(''name'', JStr ''guest-ping'')],
                     JDict [(''name'', JStr ''guest-shutdown'')]]) \<or>
           map_of [(''supported_commands'',
              JList [JDict [(''name'', JStr ''guest-ping'')],
                     JDict [(''name'', JStr ''guest-shutdown'')]])] ''supported_commands'' = None \<and>
           supported_cmds (guest_sends 1 (reply_info_line @ [CHR 0x0A])) = [] \<and>
           [JDict [(''name'', JStr ''guest-ping'')], JDict [(''name'', JStr ''guest-shutdown'')]] = []"
    by simp
  have c: "names_of [JDict [(''name'', JStr ''guest-ping'')],
                     JDict [(''name'', JStr ''guest-shutdown'')]] =
           map JStr [''guest-ping'', ''guest-shutdown'']"
    by simp
  have a': "fst (cmd example_loads example_dumps ''guest-info'' None CMD_TIMEOUT False True
                 (guest_sends 1 (reply_empty_line @ [CHR 0x0A]))) = Inr (JDict [])"
    by code_simp
  have "supported_cmds (guest_sends 1 (reply_empty_line @ [CHR 0x0A])) = []" by code_simp
  then have b': "map_of [] ''supported_commands'' = Some (JList []) \<or>
           map_of ([] :: (string \<times> json) list) ''supported_commands'' = None \<and>
           supported_cmds (guest_sends 1 (reply_empty_line @ [CHR 0x0A])) = [] \<and>
           ([] :: json list) = []"
    by simp
  have c': "names_of [] = map JStr []" by simp
  from capability_check_after_discovery [of example_loads example_dumps
      "guest_sends 1 (reply_info_line @ [CHR 0x0A])" _ _ _ None, OF a b c]
    capability_check_after_discovery [of example_loads example_dumps
      "guest_sends 1 (reply_empty_line @ [CHR 0x0A])" _ _ _ None, OF a' b' c']
  show ?thesis by simp
qed

subsection \<open>An error reply\<close>

text \<open>
  C5. The claim: a reply with \<open>"error": E\<close> makes \<open>cmd\<close> fail with a \<open>VAgentCmdError\<close>
  that carries the command name, the arguments and \<open>E\<close>. The code builds that
  exception, and its \<open>__init__\<close> passes the three values on to
  \<open>VAgentError.__init__\<close>, which takes none: the call of the spec's scenario B ends
  with \<open>TypeError\<close>, and no call of \<open>cmd\<close> ends with a \<open>VAgentCmdError\<close>.
\<close>

theorem error_reply_raises_TypeError:
  "fst (cmd example_loads example_dumps ''guest-sync'' (Some (JDict [(''id'', JNum 42)]))
          CMD_TIMEOUT True True (guest_sends 1 (reply_error_line @ [CHR 0x0A]))) = Inl TypeError \<and>
   fst (cmd loads dumps name args timeout debug success_resp w) \<noteq> Inl (VAgentCmdError c a d)"
proof -
  have "fst (cmd example_loads example_dumps ''guest-sync'' (Some (JDict [(''id'', JNum 42)]))
          CMD_TIMEOUT True True (guest_sends 1 (reply_error_line @ [CHR 0x0A]))) = Inl TypeError"
    by code_simp
  moreover have raw: "fst (cmd_raw loads data timeout success_resp w') \<noteq> Inl (VAgentCmdError c a d)"
    for data w'
    by (auto simp: cmd_raw_def send_def new_VAgentError_TypeError
        split: prod.splits sum.splits bool.splits)
  have "fst (cmd loads dumps name args timeout debug success_resp w) \<noteq> Inl (VAgentCmdError c a d)"
    using raw [of "dumps (build_cmd name args) @ [CHR 0x0A]" "log_command name debug [] w"]
    by (auto simp: cmd_def new_VAgentError_TypeError split: prod.splits sum.splits bool.splits
        dest: py_in_error getitem_error log_response_error)
  ultimately show ?thesis by simp
qed

subsection \<open>A success reply\<close>




subsection \<open>The lock\<close>

text \<open>
  C7. A call of \<open>cmd_raw\<close> that acquires the lock leaves it released, whatever the
  call returns or raises; so after any number of consecutive calls, failing or not,
  the lock can be acquired again.
\<close>

theorem cmd_raw_releases_lock:
  assumes "fst (acquire_lock w)"
  shows "\<not> locked (snd (cmd_raw loads data timeout success_resp w)) \<and>
         fst (acquire_lock (cmd_raw_calls loads calls w))"
proof -
  from assms have "\<not> locked w" by (auto simp: acquire_lock_def split: if_splits)
  with cmd_raw_released [of w loads data timeout success_resp]
    cmd_raw_calls_released [of w loads calls]
  show ?thesis by (simp add: acquire_lock_def)
qed

text \<open>
  An example: three calls in a row whose \<open>sendall\<close> fails; each raises, and the lock
  is free after them.
\<close>

theorem cmd_raw_releases_lock_witness:
  "fst (acquire_lock faulty) \<and>
   fst (cmd_raw example_loads ''ping'' CMD_TIMEOUT True faulty) = Inl TypeError \<and>
   \<not> locked (snd (cmd_raw example_loads ''ping'' CMD_TIMEOUT True faulty)) \<and>
   fst (acquire_lock (cmd_raw_calls example_loads
          [(''ping'', CMD_TIMEOUT, True), (''ping'', CMD_TIMEOUT, True), (''ping'', CMD_TIMEOUT, True)]
          faulty))"
proof -
  have a: "fst (acquire_lock faulty)" by code_simp
  have "fst (cmd_raw example_loads ''ping'' CMD_TIMEOUT True faulty) = Inl TypeError" by code_simp
  with a cmd_raw_releases_lock [OF a, of example_loads "''ping''" CMD_TIMEOUT True
      "[(''ping'', CMD_TIMEOUT, True), (''ping'', CMD_TIMEOUT, True), (''ping'', CMD_TIMEOUT, True)]"]
  show ?thesis by blast
qed

subsection \<open>A mapping that is no reply\<close>

text \<open>
  C8. When \<open>cmd_raw\<close> hands \<open>cmd\<close> (a call that expects a response) a mapping with
  neither \<open>"return"\<close> nor \<open>"error"\<close>, \<open>cmd\<close> returns \<open>None\<close> and raises nothing.
\<close>

theorem cmd_returns_None_without_reply:
  assumes "fst (cmd_raw loads (dumps (build_cmd name args) @ [CHR 0x0A]) timeout True
                  (log_command name debug [] w)) = Inr (JDict kv)"
    and "\<not> has_key kv ''return''" and "\<not> has_key kv ''error''"
  shows "fst (cmd loads dumps name args timeout debug True w) = Inr JNull"
  using assms by (auto simp: cmd_def split: prod.splits)

text \<open>The empty mapping that \<open>_get_response\<close> yields when the guest stays silent.\<close>

theorem cmd_returns_None_without_reply_witness:
  "fst (get_response example_loads CMD_TIMEOUT idle) = JDict [] \<and>
   fst (cmd example_loads example_dumps ''guest-ping'' None CMD_TIMEOUT True True idle) = Inr JNull"
proof -
  have a: "fst (cmd_raw example_loads (example_dumps (build_cmd ''guest-ping'' None) @ [CHR 0x0A])
                  CMD_TIMEOUT True (log_command ''guest-ping'' True [] idle)) = Inr (JDict [])"
    by code_simp
  have b: "\<not> has_key [] ''return''" and c: "\<not> has_key [] ''error''"
    by (simp_all add: has_key_def)
  have "fst (get_response example_loads CMD_TIMEOUT idle) = JDict []" by code_simp
  with cmd_returns_None_without_reply [of example_loads example_dumps "''guest-ping''" None
      CMD_TIMEOUT True idle "[]", OF a b c]
  show ?thesis by simp
qed

subsection \<open>The empty command name\<close>

text \<open>
  C9. With a populated capability set whose first element is not the sentinel, the
  capability check for the empty name returns false and changes nothing, also when
  the empty name is an element of the set.
\<close>

theorem has_command_empty_name:
  "supported_cmds w \<noteq> [] \<Longrightarrow> hd (supported_cmds w) \<noteq> JNull \<Longrightarrow>
     has_command inherited [] w = (Inr False, w)"
  by (cases "supported_cmds w") (simp_all add: has_command_def)

theorem has_command_empty_name_witness:
  "supported_cmds (idle\<lparr>supported_cmds := [JStr ''guest-ping'', JStr []]\<rparr>) \<noteq> [] \<and>
   hd (supported_cmds (idle\<lparr>supported_cmds := [JStr ''guest-ping'', JStr []]\<rparr>)) \<noteq> JNull \<and>
   JStr [] \<in> set (supported_cmds (idle\<lparr>supported_cmds := [JStr ''guest-ping'', JStr []]\<rparr>)) \<and>
   has_command None [] (idle\<lparr>supported_cmds := [JStr ''guest-ping'', JStr []]\<rparr>) =
     (Inr False, idle\<lparr>supported_cmds := [JStr ''guest-ping'', JStr []]\<rparr>)"
proof -
  have a: "supported_cmds (idle\<lparr>supported_cmds := [JStr ''guest-ping'', JStr []]\<rparr>) \<noteq> []" by simp
  have b: "hd (supported_cmds (idle\<lparr>supported_cmds := [JStr ''guest-ping'', JStr []]\<rparr>)) \<noteq> JNull"
    by simp
  from has_command_empty_name [OF a b, of None] a b show ?thesis by simp
qed

subsection \<open>Reading with no data\<close>

text \<open>
  C10. When no data can be read at the moment \<open>_read_objects\<close> is entered, it returns
  the empty list and leaves the state as it was: the clock has not moved, so nothing
  of the time limit was used, and nothing was taken from the inbox.
\<close>

theorem read_objects_no_data:
  "\<not> fst (data_available DATA_AVAILABLE_TIMEOUT w) \<Longrightarrow> read_objects loads timeout w = ([], w)"
  by (auto simp: read_objects_def data_available_def DATA_AVAILABLE_TIMEOUT_def Let_def
      split: list.splits prod.splits if_splits)

text \<open>
  An example: text that arrives at time 7 cannot be read at time 0, and a call with
  the limit 5 returns at time 0.
\<close>

theorem read_objects_no_data_witness:
  "\<not> fst (data_available DATA_AVAILABLE_TIMEOUT (guest_sends 7 reply_empty_line)) \<and>
   read_objects example_loads 5 (guest_sends 7 reply_empty_line) = ([], guest_sends 7 reply_empty_line) \<and>
   clock (snd (read_objects example_loads 5 (guest_sends 7 reply_empty_line))) = 0"
proof -
  have h: "\<not> fst (data_available DATA_AVAILABLE_TIMEOUT (guest_sends 7 reply_empty_line))"
    by code_simp
  have "clock (guest_sends 7 reply_empty_line) = 0" by code_simp
  with h read_objects_no_data [OF h, of example_loads 5] show ?thesis by simp
qed

end
